theory Spec2Isabelle
  imports Main "HOL-Library.Word" "HOL-Library.Sublist"
begin

section \<open>Byte slices, buffers and the two pools (init.go)\<close>

type_synonym bytes = "8 word list"

text \<open>A Go byte slice: the elements up to its length, and its capacity.\<close>

record slice =
  elems :: bytes
  capacity :: nat

text \<open>\<^verbatim>\<open>make([]byte, n, c)\<close>: n zero bytes, capacity c.\<close>

definition make_bytes :: "nat \<Rightarrow> nat \<Rightarrow> slice" where
  "make_bytes n c = \<lparr>elems = replicate n 0, capacity = c\<rparr>"

text \<open>
  The slice expression \<^verbatim>\<open>b[lo:]\<close>: the elements from index lo up to the
  length of b. The only use in the source is \<^verbatim>\<open>bytes[0:]\<close>, for which the
  bounds check \<open>lo \<le> len(b)\<close> always passes.
\<close>

definition slice_from :: "nat \<Rightarrow> slice \<Rightarrow> slice" where
  "slice_from lo b = \<lparr>elems = drop lo (elems b), capacity = capacity b - lo\<rparr>"

text \<open>
  \<^verbatim>\<open>bytes.Buffer\<close> of the Go standard library: the bytes \<open>buf\<close> and the read
  offset \<open>off\<close>. \<open>Truncate(0)\<close> empties the buffer and resets the offset, \<open>Write\<close>
  appends, \<open>Len\<close> and \<open>Bytes\<close> describe the unread part.
\<close>

record buffer =
  buf :: bytes
  off :: nat

definition NewBuffer :: "slice \<Rightarrow> buffer" where
  "NewBuffer b = \<lparr>buf = elems b, off = 0\<rparr>"

definition Truncate0 :: "buffer \<Rightarrow> buffer" where
  "Truncate0 b = b\<lparr>buf := [], off := 0\<rparr>"

definition Len :: "buffer \<Rightarrow> nat" where
  "Len b = length (buf b) - off b"

definition Bytes :: "buffer \<Rightarrow> bytes" where
  "Bytes b = drop (off b) (buf b)"

definition Buffer_Write :: "bytes \<Rightarrow> buffer \<Rightarrow> buffer" where
  "Buffer_Write p b = b\<lparr>buf := buf b @ p\<rparr>"

text \<open>
  \<^verbatim>\<open>sync.Pool.Get\<close> hands out an arbitrary stored item, or nothing (then the
  pool's \<open>New\<close> is called). The choice is made outside the program: index \<open>k\<close> picks
  the k-th stored item, an index beyond the stored items is a miss.
\<close>

definition pool_Get :: "nat \<Rightarrow> 'a list \<Rightarrow> 'a option \<times> 'a list" where
  "pool_Get k p =
     (if k < length p then (Some (p ! k), take k p @ drop (Suc k) p) else (None, p))"

definition pool_Put :: "'a \<Rightarrow> 'a list \<Rightarrow> 'a list" where
  "pool_Put x p = x # p"

section \<open>The state of the package and of one Logger\<close>

datatype pub_error = ErrNotConnected | ErrStopped | ErrOther string

text \<open>
  What the goroutines do, in order, as far as the outside can see it: the receive on
  \<open>l.fexit\<close>, a call of \<open>l.list.Read\<close>, a call of \<open>PublishAsync\<close> with its topic,
  payload and result (\<open>None\<close> is \<open>nil\<close>), a sleep in milliseconds, a \<open>log.Print\<close>
  of an error, and the two last statements of \<open>Close\<close>.
\<close>

datatype event =
    RecvFexit
  | ListRead
  | PublishAsync string bytes "pub_error option"
  | Sleep nat
  | LogPrint pub_error
  | CloseDone
  | ProducerStop

text \<open>
  Where the caller of \<open>Close\<close> stands: not called yet, blocked in the send
  \<^verbatim>\<open>l.fexit <- sig{}\<close> (the channel is unbuffered), past the send, past
  \<^verbatim>\<open>close(l.done)\<close>, and returned after \<^verbatim>\<open>l.w.Stop()\<close>.
\<close>

datatype close_pc = Idle | Sending | Received | DoneClosed | Returned

text \<open>
  The package-level pools, the queue \<open>l.list\<close>, the goroutine's local \<open>dcount\<close>,
  counters of the calls made so far to the producer and of the \<open>select\<close>
  statements executed, and the position of the caller of \<open>Close\<close>.
\<close>

record 'seg world =
  bufferPool :: "buffer list"
  bytesPool :: "slice list"
  l_list :: "'seg list"
  dcount :: nat
  npub :: nat
  nsel :: nat
  closer :: close_pc
  trace :: "event list"

record logger =
  Topic :: string
  DbName :: string

text \<open>
  What the program does not decide: the result of the n-th call of
  \<open>PublishAsync\<close>, and the choices of the two pools in the n-th iteration.
\<close>

record env =
  sink :: "nat \<Rightarrow> pub_error option"
  pick :: "nat \<Rightarrow> nat \<times> nat"

subsection \<open>Pool operations\<close>

definition getBytes :: "nat \<Rightarrow> 'seg world \<Rightarrow> slice \<times> 'seg world" where
  "getBytes k w =
     (case pool_Get k (bytesPool w) of
        (None, p) \<Rightarrow> (slice_from 0 (make_bytes 0 100), w)
      | (Some b, p) \<Rightarrow> (slice_from 0 b, w\<lparr>bytesPool := p\<rparr>))"

definition putBytes :: "slice \<Rightarrow> 'seg world \<Rightarrow> 'seg world" where
  "putBytes b w = w\<lparr>bytesPool := pool_Put b (bytesPool w)\<rparr>"

definition getBuffer :: "nat \<Rightarrow> nat \<Rightarrow> 'seg world \<Rightarrow> buffer \<times> 'seg world" where
  "getBuffer k kb w =
     (case pool_Get k (bufferPool w) of
        (None, p) \<Rightarrow> (case getBytes kb w of (b, w') \<Rightarrow> (Truncate0 (NewBuffer b), w'))
      | (Some b, p) \<Rightarrow> (Truncate0 b, w\<lparr>bufferPool := p\<rparr>))"

definition putBuffer :: "buffer \<Rightarrow> 'seg world \<Rightarrow> 'seg world" where
  "putBuffer b w = w\<lparr>bufferPool := pool_Put b (bufferPool w)\<rparr>"

subsection \<open>The queue\<close>

text \<open>
  Modelled from the spec: the queue \<open>gringo.Gringo\<close> is an imported package. Section
  4.2 of the spec gives its contract: \<open>write\<close> never fails, \<open>read\<close> returns the oldest
  segment or the empty sentinel at once, first in first out.
\<close>

definition list_Write :: "'seg \<Rightarrow> 'seg world \<Rightarrow> 'seg world" where
  "list_Write seg w = w\<lparr>l_list := l_list w @ [seg]\<rparr>"

definition list_Read :: "'seg world \<Rightarrow> 'seg option \<times> 'seg world" where
  "list_Read w =
     (case l_list w of
        [] \<Rightarrow> (None, w\<lparr>trace := trace w @ [ListRead]\<rparr>)
      | seg # rest \<Rightarrow> (Some seg, w\<lparr>l_list := rest, trace := trace w @ [ListRead]\<rparr>))"

section \<open>The publish goroutine of NewLogger\<close>

definition maxDcount :: nat where
  "maxDcount = 10"

text \<open>
  The code from the label \<open>pub:\<close> to the end of the \<open>if err != nil\<close> statement.
  \<open>goto pub\<close> is the recursive call; each \<open>break\<close> leaves the \<open>switch\<close>, so those
  branches return the state as it is and the caller goes on with \<open>putBuffer\<close>.
\<close>

function pub :: "env \<Rightarrow> string \<Rightarrow> bytes \<Rightarrow> 'seg world \<Rightarrow> 'seg world" where
  "pub E topic payload w =
     (let err = sink E (npub w);
          w1 = w\<lparr>npub := Suc (npub w),
                 trace := trace w @ [PublishAsync topic payload err]\<rparr>
      in case err of
           None \<Rightarrow> w1\<lparr>dcount := 0\<rparr>
         | Some ErrNotConnected \<Rightarrow>
             if dcount w1 > maxDcount then w1
             else pub E topic payload
                    (w1\<lparr>dcount := dcount w1 + 1, trace := trace w1 @ [Sleep 100]\<rparr>)
         | Some ErrStopped \<Rightarrow> w1
         | Some (ErrOther m) \<Rightarrow> w1\<lparr>trace := trace w1 @ [LogPrint (ErrOther m)]\<rparr>)"
  by pat_completeness auto
termination
  by (relation "measure (\<lambda>(E, topic, payload, w). Suc maxDcount - dcount w)") auto

declare pub.simps [simp del]

text \<open>
  One iteration of the \<open>for\<close> loop. The receive \<open>case <-l.fexit\<close> is taken when a
  sender is blocked on the channel, and lets that sender go on; its \<open>break\<close> leaves
  the \<open>select\<close>. Both \<open>continue\<close> statements and the end of the body lead to the
  next iteration. \<open>wr\<close> is \<open>seg.WriteTo\<close>: the bytes a segment renders to.
\<close>

definition loop_iter :: "('seg \<Rightarrow> bytes) \<Rightarrow> env \<Rightarrow> logger \<Rightarrow> 'seg world \<Rightarrow> 'seg world" where
  "loop_iter wr E l w0 =
     (let n = nsel w0; w = w0\<lparr>nsel := Suc n\<rparr>
      in if closer w = Sending then w\<lparr>closer := Received, trace := trace w @ [RecvFexit]\<rparr>
         else (case list_Read w of
                 (None, w1) \<Rightarrow> w1
               | (Some seg, w1) \<Rightarrow>
                   (case getBuffer (fst (pick E n)) (snd (pick E n)) w1 of
                      (b, w2) \<Rightarrow>
                        (let b' = Buffer_Write (wr seg) b
                         in if Len b' = 0 then w2
                            else putBuffer b' (pub E (Topic l) (Bytes b') w2)))))"

text \<open>
  \<open>Close\<close>, one statement at a time. The send blocks until the loop's \<open>select\<close>
  receives, so a step of a blocked sender changes nothing.
\<close>

definition Close_step :: "'seg world \<Rightarrow> 'seg world" where
  "Close_step w =
     (case closer w of
        Idle \<Rightarrow> w\<lparr>closer := Sending\<rparr>
      | Sending \<Rightarrow> w
      | Received \<Rightarrow> w\<lparr>closer := DoneClosed, trace := trace w @ [CloseDone]\<rparr>
      | DoneClosed \<Rightarrow> w\<lparr>closer := Returned, trace := trace w @ [ProducerStop]\<rparr>
      | Returned \<Rightarrow> w)"

text \<open>
  The goroutine runs beside the callers of the Logger. A schedule lists, in the
  order in which they take effect, the segments that callers write to the queue,
  the iterations of the loop and the steps of \<open>Close\<close>.
\<close>

datatype 'seg action = Enqueue 'seg | Iter | CloseStep

fun exec :: "('seg \<Rightarrow> bytes) \<Rightarrow> env \<Rightarrow> logger \<Rightarrow> 'seg action list \<Rightarrow> 'seg world \<Rightarrow> 'seg world" where
  "exec wr E l [] w = w"
| "exec wr E l (Enqueue seg # as) w = exec wr E l as (list_Write seg w)"
| "exec wr E l (Iter # as) w = exec wr E l as (loop_iter wr E l w)"
| "exec wr E l (CloseStep # as) w = exec wr E l as (Close_step w)"

fun enqueued :: "'seg action list \<Rightarrow> 'seg list" where
  "enqueued [] = []"
| "enqueued (Enqueue seg # as) = seg # enqueued as"
| "enqueued (a # as) = enqueued as"

text \<open>
  The state when \<open>NewLogger\<close> starts the goroutine: the queue of \<open>NewGringo()\<close> is
  empty, \<open>dcount := 0\<close>, nothing has happened yet. The pools are package-level and
  may hold anything.
\<close>

definition start :: "buffer list \<Rightarrow> slice list \<Rightarrow> 'seg world" where
  "start bp sp =
     \<lparr>bufferPool = bp, bytesPool = sp, l_list = [], dcount = 0, npub = 0, nsel = 0,
      closer = Idle, trace = []\<rparr>"

text \<open>The payloads handed to the producer, and those it accepted, in order.\<close>

fun attempts :: "event list \<Rightarrow> bytes list" where
  "attempts [] = []"
| "attempts (PublishAsync t p r # es) = p # attempts es"
| "attempts (e # es) = attempts es"

fun accepted :: "event list \<Rightarrow> bytes list" where
  "accepted [] = []"
| "accepted (PublishAsync t p None # es) = p # accepted es"
| "accepted (e # es) = accepted es"

text \<open>
  The payloads the producer would see if every segment of a queue used up the
  largest number of attempts the loop makes for one segment.
\<close>

definition slots :: "('seg \<Rightarrow> bytes) \<Rightarrow> 'seg list \<Rightarrow> bytes list" where
  "slots wr q = concat (map (\<lambda>seg. replicate (Suc (Suc maxDcount)) (wr seg)) q)"

section \<open>Messages and entries (init.go, log/logging.go)\<close>

type_synonym LogLevel = "64 word"

definition DEBUG :: LogLevel where "DEBUG = 0"
definition INFO :: LogLevel where "INFO = 1"
definition WARN :: LogLevel where "WARN = 2"
definition ERROR :: LogLevel where "ERROR = 3"
definition FATAL :: LogLevel where "FATAL = 4"

text \<open>Values of type \<^verbatim>\<open>interface{}\<close>, as far as they are needed here.\<close>

datatype gval = GString string | GInt64 int | GSlice "gval list"

type_synonym entry = "string \<rightharpoonup> gval"

text \<open>
  Modelled from the spec: \<open>LogMsgtoSegment\<close> is defined in a file of this repository
  that is not at hand. By section 4.3 of the spec, encoding a message is a function
  of the source tag, the level and the text, and never fails; by section 3 a message
  is a level and a text. These three are all that \<open>doMsg\<close> hands to it.
\<close>

record msg_segment =
  seg_name :: string
  seg_level :: LogLevel
  seg_text :: string

definition LogMsgtoSegment :: "string \<Rightarrow> LogLevel \<Rightarrow> string \<Rightarrow> msg_segment" where
  "LogMsgtoSegment name level message =
     \<lparr>seg_name = name, seg_level = level, seg_text = message\<rparr>"

text \<open>
  \<open>doMsg\<close> takes a slice from the pool, encodes, writes the segment to the queue and
  puts the slice back. It reads no clock. \<open>k\<close> is the choice of the byte-slice pool
  in this call.
\<close>

definition doMsg :: "nat \<Rightarrow> logger \<Rightarrow> LogLevel \<Rightarrow> string \<Rightarrow> msg_segment world \<Rightarrow> msg_segment world" where
  "doMsg k l level message w =
     (case getBytes k w of
        (b, w1) \<Rightarrow> putBytes b (list_Write (LogMsgtoSegment (DbName l) level message) w1))"

text \<open>
  \<open>EntrytoSegment\<close> is defined in a file of this repository that is not at hand; it
  is a parameter here, returning the error or the segment. \<open>now\<close> is what
  \<open>time.Now().Unix()\<close> returns in this call. \<open>doEntry\<close> returns its error result, the
  entry map as it leaves it, and the new state.
\<close>

definition doEntry ::
  "(string \<Rightarrow> entry \<Rightarrow> string + 'seg) \<Rightarrow> int \<Rightarrow> nat \<Rightarrow> logger \<Rightarrow> entry \<Rightarrow> 'seg world
     \<Rightarrow> string option \<times> entry \<times> 'seg world" where
  "doEntry EntrytoSegment now k l e w =
     (let e' = e(''time'' \<mapsto> GInt64 now)
      in case getBytes k w of
           (b, w1) \<Rightarrow>
             (case EntrytoSegment (DbName l) e' of
                Inl err \<Rightarrow> (Some err, e', w1)
              | Inr seg \<Rightarrow> (None, e', putBytes b (list_Write seg w1))))"

subsection \<open>The level methods\<close>

text \<open>
  \<open>sprintf\<close> stands for \<open>fmt.Sprintf\<close>: a format string and the list of its operands.
  The formatted methods pass the variadic parameter \<open>args\<close>, a slice, as the one
  operand of the call. The file declares package \<open>log\<close>, whose \<open>Logger\<close> and \<open>doMsg\<close>
  are not at hand; the methods are modelled on the \<open>doMsg\<close> of init.go.
\<close>

definition Info :: "nat \<Rightarrow> logger \<Rightarrow> string \<Rightarrow> msg_segment world \<Rightarrow> msg_segment world" where
  "Info k l v w = doMsg k l INFO v w"

definition Infof ::
  "(string \<Rightarrow> gval list \<Rightarrow> string) \<Rightarrow> nat \<Rightarrow> logger \<Rightarrow> string \<Rightarrow> gval list
     \<Rightarrow> msg_segment world \<Rightarrow> msg_segment world" where
  "Infof sprintf k l format args w = doMsg k l INFO (sprintf format [GSlice args]) w"

definition Debug :: "nat \<Rightarrow> logger \<Rightarrow> string \<Rightarrow> msg_segment world \<Rightarrow> msg_segment world" where
  "Debug k l v w = doMsg k l DEBUG v w"

definition Debugf ::
  "(string \<Rightarrow> gval list \<Rightarrow> string) \<Rightarrow> nat \<Rightarrow> logger \<Rightarrow> string \<Rightarrow> gval list
     \<Rightarrow> msg_segment world \<Rightarrow> msg_segment world" where
  "Debugf sprintf k l format args w = doMsg k l DEBUG (sprintf format [GSlice args]) w"

definition Warn :: "nat \<Rightarrow> logger \<Rightarrow> string \<Rightarrow> msg_segment world \<Rightarrow> msg_segment world" where
  "Warn k l v w = doMsg k l WARN v w"

definition Warnf ::
  "(string \<Rightarrow> gval list \<Rightarrow> string) \<Rightarrow> nat \<Rightarrow> logger \<Rightarrow> string \<Rightarrow> gval list
     \<Rightarrow> msg_segment world \<Rightarrow> msg_segment world" where
  "Warnf sprintf k l format args w = doMsg k l WARN (sprintf format [GSlice args]) w"

definition Error :: "nat \<Rightarrow> logger \<Rightarrow> string \<Rightarrow> msg_segment world \<Rightarrow> msg_segment world" where
  "Error k l v w = doMsg k l ERROR v w"

definition Errorf ::
  "(string \<Rightarrow> gval list \<Rightarrow> string) \<Rightarrow> nat \<Rightarrow> logger \<Rightarrow> string \<Rightarrow> gval list
     \<Rightarrow> msg_segment world \<Rightarrow> msg_segment world" where
  "Errorf sprintf k l format args w = doMsg k l ERROR (sprintf format [GSlice args]) w"

definition Fatal :: "nat \<Rightarrow> logger \<Rightarrow> string \<Rightarrow> msg_segment world \<Rightarrow> msg_segment world" where
  "Fatal k l v w = doMsg k l FATAL v w"

definition Fatalf ::
  "(string \<Rightarrow> gval list \<Rightarrow> string) \<Rightarrow> nat \<Rightarrow> logger \<Rightarrow> string \<Rightarrow> gval list
     \<Rightarrow> msg_segment world \<Rightarrow> msg_segment world" where
  "Fatalf sprintf k l format args w = doMsg k l FATAL (sprintf format [GSlice args]) w"

definition Log :: "nat \<Rightarrow> logger \<Rightarrow> LogLevel \<Rightarrow> string \<Rightarrow> msg_segment world \<Rightarrow> msg_segment world" where
  "Log k l level v w = doMsg k l level v w"


subsection \<open>fmt.Sprintf\<close>

text \<open>
  \<open>fmt.Sprintf\<close> of the Go standard library, for the part of it that the examples
  below need: format strings whose verbs are \<open>%s\<close>, \<open>%v\<close> and \<open>%%\<close> without flags,
  and operands that are strings or slices of such operands. A slice is printed as its
  elements between brackets, separated by spaces; a verb without operand prints
  \<open>%!verb(MISSING)\<close>; operands left over are listed after \<open>%!(EXTRA\<close> with their
  types. \<open>None\<close> marks a call outside this part; \<open>Sprintf\<close> is the result inside
  it and is left unspecified outside.
\<close>

fun join :: "string \<Rightarrow> string list \<Rightarrow> string" where
  "join sep [] = []"
| "join sep [x] = x"
| "join sep (x # y # ys) = x @ sep @ join sep (y # ys)"

fun printArg :: "gval \<Rightarrow> string option" where
  "printArg (GString s) = Some s"
| "printArg (GInt64 i) = None"
| "printArg (GSlice xs) =
     map_option (\<lambda>ss. ''['' @ join '' '' ss @ '']'') (those (map printArg xs))"

fun typeName :: "gval \<Rightarrow> string" where
  "typeName (GString s) = ''string''"
| "typeName (GInt64 i) = ''int64''"
| "typeName (GSlice xs) = ''[]interface {}''"

definition extra :: "gval list \<Rightarrow> string option" where
  "extra a =
     (if a = [] then Some []
      else map_option (\<lambda>ps. ''%!(EXTRA '' @ join '', '' ps @ '')'')
             (those (map (\<lambda>x. map_option (\<lambda>v. typeName x @ ''='' @ v) (printArg x)) a)))"

fun doPrintf :: "string \<Rightarrow> gval list \<Rightarrow> string option" where
  "doPrintf [] a = extra a"
| "doPrintf [c] a =
     (if c = CHR ''%'' then map_option (\<lambda>r. ''%!(NOVERB)'' @ r) (extra a)
      else map_option (\<lambda>r. c # r) (extra a))"
| "doPrintf (c # v # cs) a =
     (if c = CHR ''%'' then
        (if v = CHR ''%'' then map_option (\<lambda>r. CHR ''%'' # r) (doPrintf cs a)
         else if v \<in> set ''sv'' then
           (case a of
              [] \<Rightarrow> map_option (\<lambda>r. ''%!'' @ [v] @ ''(MISSING)'' @ r) (doPrintf cs [])
            | x # xs \<Rightarrow>
                (case printArg x of
                   None \<Rightarrow> None
                 | Some t \<Rightarrow> map_option (\<lambda>r. t @ r) (doPrintf cs xs)))
         else None)
      else map_option (\<lambda>r. c # r) (doPrintf (v # cs) a))"

definition Sprintf :: "string \<Rightarrow> gval list \<Rightarrow> string" where
  "Sprintf format a = the (doPrintf format a)"

section \<open>Scenarios\<close>

definition lg0 :: logger where
  "lg0 = \<lparr>Topic = ''logs'', DbName = ''app''\<rparr>"

text \<open>A producer that accepts every request.\<close>

definition env_up :: env where
  "env_up = \<lparr>sink = (\<lambda>n. None), pick = (\<lambda>n. (0, 0))\<rparr>"

text \<open>A producer that is not connected for the first 11 requests and accepts from then on.\<close>

definition env_down11 :: env where
  "env_down11 =
     \<lparr>sink = (\<lambda>n. if n < 11 then Some ErrNotConnected else None), pick = (\<lambda>n. (0, 0))\<rparr>"

text \<open>A producer that is never connected.\<close>

definition env_down :: env where
  "env_down = \<lparr>sink = (\<lambda>n. Some ErrNotConnected), pick = (\<lambda>n. (0, 0))\<rparr>"

text \<open>A producer that has been stopped.\<close>

definition env_stopped :: env where
  "env_stopped = \<lparr>sink = (\<lambda>n. Some ErrStopped), pick = (\<lambda>n. (0, 0))\<rparr>"

text \<open>A producer that accepts one request and is stopped afterwards.\<close>

definition env_stop_after1 :: env where
  "env_stop_after1 =
     \<lparr>sink = (\<lambda>n. if n = 0 then None else Some ErrStopped), pick = (\<lambda>n. (0, 0))\<rparr>"

text \<open>
  An encoder for entries that rejects an entry without the field \<open>msg\<close> and
  otherwise yields the source tag with the fields \<open>msg\<close> and \<open>time\<close>.
\<close>

definition enc0 :: "string \<Rightarrow> entry \<Rightarrow> string + (string \<times> gval option \<times> gval option)" where
  "enc0 name e =
     (case e ''msg'' of
        None \<Rightarrow> Inl ''unsupported''
      | Some v \<Rightarrow> Inr (name, Some v, e ''time''))"


section \<open>Properties of the publish loop\<close>

lemma attempts_append: "attempts (xs @ ys) = attempts xs @ attempts ys"
  by (induction xs rule: attempts.induct) simp_all

lemma accepted_append: "accepted (xs @ ys) = accepted xs @ accepted ys"
  by (induction xs rule: accepted.induct) simp_all

lemma pub_ok:
  "sink E (npub w) = None \<Longrightarrow>
   pub E t p w = w\<lparr>npub := Suc (npub w), trace := trace w @ [PublishAsync t p None], dcount := 0\<rparr>"
  by (simp add: pub.simps [of E t p w])

lemma pub_stopped:
  "sink E (npub w) = Some ErrStopped \<Longrightarrow>
   pub E t p w = w\<lparr>npub := Suc (npub w), trace := trace w @ [PublishAsync t p (Some ErrStopped)]\<rparr>"
  by (simp add: pub.simps [of E t p w])

lemma pub_other:
  "sink E (npub w) = Some (ErrOther m) \<Longrightarrow>
   pub E t p w = w\<lparr>npub := Suc (npub w),
     trace := trace w @ [PublishAsync t p (Some (ErrOther m)), LogPrint (ErrOther m)]\<rparr>"
  by (simp add: pub.simps [of E t p w])

lemma pub_give_up:
  "sink E (npub w) = Some ErrNotConnected \<Longrightarrow> maxDcount < dcount w \<Longrightarrow>
   pub E t p w = w\<lparr>npub := Suc (npub w), trace := trace w @ [PublishAsync t p (Some ErrNotConnected)]\<rparr>"
  by (simp add: pub.simps [of E t p w])

lemma pub_retry:
  "sink E (npub w) = Some ErrNotConnected \<Longrightarrow> \<not> maxDcount < dcount w \<Longrightarrow>
   pub E t p w = pub E t p (w\<lparr>npub := Suc (npub w), dcount := Suc (dcount w),
     trace := trace w @ [PublishAsync t p (Some ErrNotConnected), Sleep 100]\<rparr>)"
  by (simp add: pub.simps [of E t p w])

lemma pub_cases:
  obtains (ok) "sink E (npub w) = None"
  | (stopped) "sink E (npub w) = Some ErrStopped"
  | (other) m where "sink E (npub w) = Some (ErrOther m)"
  | (give_up) "sink E (npub w) = Some ErrNotConnected" "maxDcount < dcount w"
  | (retry) "sink E (npub w) = Some ErrNotConnected" "\<not> maxDcount < dcount w"
proof (cases "sink E (npub w)")
  case None
  then show ?thesis by (rule ok)
next
  case (Some e)
  then show ?thesis
    by (cases e; cases "maxDcount < dcount w") (auto intro: stopped other give_up retry)
qed

lemma pub_frame:
  "bufferPool (pub E t p w) = bufferPool w \<and> bytesPool (pub E t p w) = bytesPool w \<and>
   l_list (pub E t p w) = l_list w \<and> nsel (pub E t p w) = nsel w"
proof (induction E t p w rule: pub.induct)
  case (1 E t p w)
  show ?case
  proof (cases E w rule: pub_cases)
    case retry
    with "1.IH" [OF refl refl retry(1) refl] show ?thesis
      by (simp add: pub_retry)
  qed (simp_all add: pub_ok pub_stopped pub_other pub_give_up)
qed

lemma pub_trace:
  "\<exists>evs k. trace (pub E t p w) = trace w @ evs \<and> attempts evs = replicate k p \<and>
     1 \<le> k \<and> (k \<le> Suc (Suc maxDcount) - dcount w \<or> k = 1) \<and>
     (accepted evs = [] \<or> accepted evs = [p])"
proof (induction E t p w rule: pub.induct)
  case (1 E t p w)
  show ?case
  proof (cases E w rule: pub_cases)
    case retry
    let ?w = "w\<lparr>npub := Suc (npub w), dcount := Suc (dcount w),
     trace := trace w @ [PublishAsync t p (Some ErrNotConnected), Sleep 100]\<rparr>"
    have "\<exists>evs k. trace (pub E t p ?w) = trace ?w @ evs \<and> attempts evs = replicate k p \<and>
     1 \<le> k \<and> (k \<le> Suc (Suc maxDcount) - dcount ?w \<or> k = 1) \<and>
     (accepted evs = [] \<or> accepted evs = [p])"
      using "1.IH" [OF refl refl retry(1) refl] retry by simp
    then obtain evs k where h: "trace (pub E t p ?w) = trace ?w @ evs" "attempts evs = replicate k p"
      "1 \<le> k" "k \<le> Suc (Suc maxDcount) - dcount ?w \<or> k = 1"
      "accepted evs = [] \<or> accepted evs = [p]"
      by blast
    let ?evs = "[PublishAsync t p (Some ErrNotConnected), Sleep 100] @ evs"
    have "trace (pub E t p w) = trace w @ ?evs"
      using h(1) retry by (simp add: pub_retry)
    moreover have "attempts ?evs = replicate (Suc k) p"
      using h(2) by simp
    moreover have "Suc k \<le> Suc (Suc maxDcount) - dcount w"
      using h(4) retry(2) by auto
    moreover have "accepted ?evs = [] \<or> accepted ?evs = [p]"
      using h(5) by simp
    ultimately show ?thesis by (intro exI [of _ ?evs] exI [of _ "Suc k"]) simp
  next
    case ok
    show ?thesis
      by (intro exI [of _ "[PublishAsync t p None]"] exI [of _ 1]) (simp add: pub_ok ok)
  next
    case stopped
    show ?thesis
      by (intro exI [of _ "[PublishAsync t p (Some ErrStopped)]"] exI [of _ 1])
         (simp add: pub_stopped stopped)
  next
    case (other m)
    show ?thesis
      by (intro exI [of _ "[PublishAsync t p (Some (ErrOther m)), LogPrint (ErrOther m)]"] exI [of _ 1])
         (simp add: pub_other other)
  next
    case give_up
    show ?thesis
      by (intro exI [of _ "[PublishAsync t p (Some ErrNotConnected)]"] exI [of _ 1])
         (simp add: pub_give_up give_up)
  qed
qed


lemma getBytes_frame:
  "l_list (snd (getBytes k w)) = l_list w \<and> trace (snd (getBytes k w)) = trace w \<and>
   dcount (snd (getBytes k w)) = dcount w \<and> npub (snd (getBytes k w)) = npub w \<and>
   nsel (snd (getBytes k w)) = nsel w \<and> bufferPool (snd (getBytes k w)) = bufferPool w"
  by (simp add: getBytes_def pool_Get_def)

lemma getBuffer_frame:
  "l_list (snd (getBuffer k kb w)) = l_list w \<and> trace (snd (getBuffer k kb w)) = trace w \<and>
   dcount (snd (getBuffer k kb w)) = dcount w \<and> npub (snd (getBuffer k kb w)) = npub w \<and>
   nsel (snd (getBuffer k kb w)) = nsel w"
  by (simp add: getBuffer_def getBytes_def pool_Get_def)

lemma getBuffer_empty: "fst (getBuffer k kb w) = \<lparr>buf = [], off = 0\<rparr>"
  by (simp add: getBuffer_def getBytes_def pool_Get_def Truncate0_def NewBuffer_def)

lemma loop_iter_fexit:
  "closer w = Sending \<Longrightarrow>
   loop_iter wr E l w = w\<lparr>nsel := Suc (nsel w), closer := Received, trace := trace w @ [RecvFexit]\<rparr>"
  by (simp add: loop_iter_def)

lemma loop_iter_empty:
  "closer w \<noteq> Sending \<Longrightarrow> l_list w = [] \<Longrightarrow>
   loop_iter wr E l w = w\<lparr>nsel := Suc (nsel w), trace := trace w @ [ListRead]\<rparr>"
  by (simp add: loop_iter_def list_Read_def)

lemma loop_iter_seg:
  assumes "closer w \<noteq> Sending" and "l_list w = seg # rest"
  shows "loop_iter wr E l w =
     (let w2 = snd (getBuffer (fst (pick E (nsel w))) (snd (pick E (nsel w)))
                 (w\<lparr>nsel := Suc (nsel w), l_list := rest, trace := trace w @ [ListRead]\<rparr>))
      in if wr seg = [] then w2
         else putBuffer \<lparr>buf = wr seg, off = 0\<rparr> (pub E (Topic l) (wr seg) w2))"
proof -
  let ?w1 = "w\<lparr>nsel := Suc (nsel w), l_list := rest, trace := trace w @ [ListRead]\<rparr>"
  obtain b w2 where g: "getBuffer (fst (pick E (nsel w))) (snd (pick E (nsel w))) ?w1 = (b, w2)"
    by (cases "getBuffer (fst (pick E (nsel w))) (snd (pick E (nsel w))) ?w1")
  have b: "b = \<lparr>buf = [], off = 0\<rparr>"
    using getBuffer_empty [of "fst (pick E (nsel w))" "snd (pick E (nsel w))" ?w1] g by simp
  have r: "list_Read (w\<lparr>nsel := Suc (nsel w)\<rparr>) = (Some seg, ?w1)"
    using assms(2) by (simp add: list_Read_def)
  show ?thesis
    unfolding loop_iter_def Let_def using assms(1)
    by (simp add: r g b Buffer_Write_def Len_def Bytes_def)
qed


lemma loop_iter_cases:
  obtains (fexit) "closer w = Sending"
  | (empty) "closer w \<noteq> Sending" "l_list w = []"
  | (seg) seg rest where "closer w \<noteq> Sending" "l_list w = seg # rest"
  by (cases "l_list w") auto

lemma subseq_replicate: "k \<le> n \<Longrightarrow> subseq (replicate k x) (replicate n x)"
proof -
  assume "k \<le> n"
  then have "replicate n x = replicate (n - k) x @ replicate k x"
    by (simp add: replicate_add [symmetric])
  then show ?thesis by (simp add: subseq_drop_many)
qed

lemma loop_iter_effect:
  "\<exists>evs. trace (loop_iter wr E l w) = trace w @ evs \<and> [] \<notin> set (attempts evs) \<and>
     subseq (accepted evs @ map wr (l_list (loop_iter wr E l w))) (map wr (l_list w)) \<and>
     subseq (attempts evs @ slots wr (l_list (loop_iter wr E l w))) (slots wr (l_list w))"
proof (cases w rule: loop_iter_cases)
  case fexit
  then show ?thesis by (simp add: loop_iter_fexit)
next
  case empty
  then show ?thesis by (simp add: loop_iter_empty)
next
  case (seg seg rest)
  let ?w2 = "snd (getBuffer (fst (pick E (nsel w))) (snd (pick E (nsel w)))
                 (w\<lparr>nsel := Suc (nsel w), l_list := rest, trace := trace w @ [ListRead]\<rparr>))"
  have w2: "trace ?w2 = trace w @ [ListRead]" "l_list ?w2 = rest"
    by (simp_all add: getBuffer_frame)
  have sl: "slots wr (l_list w) = replicate (Suc (Suc maxDcount)) (wr seg) @ slots wr rest"
    using seg(2) by (simp add: slots_def)
  show ?thesis
  proof (cases "wr seg = []")
    case True
    then have "loop_iter wr E l w = ?w2"
      using seg by (simp add: loop_iter_seg)
    then show ?thesis using w2 seg(2) sl
      by (simp add: list_emb_Cons subseq_drop_many del: replicate_Suc)
  next
    case False
    then have eq: "loop_iter wr E l w =
        putBuffer \<lparr>buf = wr seg, off = 0\<rparr> (pub E (Topic l) (wr seg) ?w2)"
      using seg by (simp add: loop_iter_seg)
    obtain evs k where h: "trace (pub E (Topic l) (wr seg) ?w2) = trace ?w2 @ evs"
      "attempts evs = replicate k (wr seg)" "accepted evs = [] \<or> accepted evs = [wr seg]"
      "k \<le> Suc (Suc maxDcount) - dcount ?w2 \<or> k = 1"
      using pub_trace [of E "Topic l" "wr seg" ?w2] by blast
    have k: "k \<le> Suc (Suc maxDcount)"
      using h(4) by auto
    have "trace (loop_iter wr E l w) = trace w @ (ListRead # evs)"
      using eq h(1) w2(1) by (simp add: putBuffer_def)
    moreover have "[] \<notin> set (attempts (ListRead # evs))"
      using h(2) False by auto
    moreover have rest: "l_list (loop_iter wr E l w) = rest"
      using eq w2(2) by (simp add: putBuffer_def pub_frame)
    moreover have "subseq (accepted (ListRead # evs) @ map wr rest) (map wr (l_list w))"
      using h(3) seg(2) by auto
    moreover have "subseq (attempts (ListRead # evs) @ slots wr rest) (slots wr (l_list w))"
      using h(2) sl subseq_replicate [OF k, of "wr seg"] by (simp del: replicate_Suc)
    ultimately show ?thesis by metis
  qed
qed

lemma exec_effect:
  "\<exists>evs. trace (exec wr E l sched w) = trace w @ evs \<and> [] \<notin> set (attempts evs) \<and>
     subseq (accepted evs @ map wr (l_list (exec wr E l sched w)))
            (map wr (l_list w @ enqueued sched)) \<and>
     subseq (attempts evs @ slots wr (l_list (exec wr E l sched w)))
            (slots wr (l_list w @ enqueued sched))"
proof (induction sched arbitrary: w)
  case Nil
  show ?case by simp
next
  case (Cons a as)
  show ?case
  proof (cases a)
    case (Enqueue seg)
    from Cons.IH [of "list_Write seg w"] Enqueue show ?thesis
      by (simp add: list_Write_def)
  next
    case CloseStep
    from Cons.IH [of "Close_step w"] CloseStep show ?thesis
      by (auto simp: Close_step_def attempts_append accepted_append split: close_pc.splits)
  next
    case Iter
    let ?w1 = "loop_iter wr E l w"
    let ?w2 = "exec wr E l as ?w1"
    obtain e1 where s1: "trace ?w1 = trace w @ e1" "[] \<notin> set (attempts e1)"
      "subseq (accepted e1 @ map wr (l_list ?w1)) (map wr (l_list w))"
      "subseq (attempts e1 @ slots wr (l_list ?w1)) (slots wr (l_list w))"
      using loop_iter_effect [of wr E l w] by blast
    obtain e2 where s2: "trace ?w2 = trace ?w1 @ e2" "[] \<notin> set (attempts e2)"
      "subseq (accepted e2 @ map wr (l_list ?w2)) (map wr (l_list ?w1 @ enqueued as))"
      "subseq (attempts e2 @ slots wr (l_list ?w2)) (slots wr (l_list ?w1 @ enqueued as))"
      using Cons.IH [of ?w1] by blast
    have sa: "slots wr (xs @ ys) = slots wr xs @ slots wr ys" for xs ys :: "'a list"
      by (simp add: slots_def)
    have "subseq (accepted e1 @ (accepted e2 @ map wr (l_list ?w2)))
                 (accepted e1 @ (map wr (l_list ?w1) @ map wr (enqueued as)))"
      using s2(3) by (simp add: subseq_append')
    moreover have "subseq ((accepted e1 @ map wr (l_list ?w1)) @ map wr (enqueued as))
                          (map wr (l_list w) @ map wr (enqueued as))"
      using s1(3) by (simp only: subseq_append)
    ultimately have a: "subseq (accepted (e1 @ e2) @ map wr (l_list ?w2))
                 (map wr (l_list w @ enqueued (a # as)))"
      using Iter by (simp add: accepted_append)
    have "subseq (attempts e1 @ (attempts e2 @ slots wr (l_list ?w2)))
                 (attempts e1 @ (slots wr (l_list ?w1) @ slots wr (enqueued as)))"
      using s2(4) by (simp add: subseq_append' sa)
    moreover have "subseq ((attempts e1 @ slots wr (l_list ?w1)) @ slots wr (enqueued as))
                          (slots wr (l_list w) @ slots wr (enqueued as))"
      using s1(4) by (simp only: subseq_append)
    ultimately have b: "subseq (attempts (e1 @ e2) @ slots wr (l_list ?w2))
                 (slots wr (l_list w @ enqueued (a # as)))"
      using Iter by (simp add: attempts_append sa)
    have "trace (exec wr E l (a # as) w) = trace w @ (e1 @ e2)"
      using s1(1) s2(1) Iter by simp
    moreover have "[] \<notin> set (attempts (e1 @ e2))"
      using s1(2) s2(2) by (simp add: attempts_append)
    ultimately show ?thesis using Iter a b by (intro exI [of _ "e1 @ e2"]) simp
  qed
qed

lemma loop_iter_all_ok:
  assumes "\<forall>n. sink E n = None" and "\<forall>seg\<in>set (l_list w). wr seg \<noteq> []"
  shows "accepted (trace (loop_iter wr E l w)) @ map wr (l_list (loop_iter wr E l w)) =
         accepted (trace w) @ map wr (l_list w)"
    and "set (l_list (loop_iter wr E l w)) \<subseteq> set (l_list w)"
proof -
  have "accepted (trace (loop_iter wr E l w)) @ map wr (l_list (loop_iter wr E l w)) =
         accepted (trace w) @ map wr (l_list w) \<and>
        set (l_list (loop_iter wr E l w)) \<subseteq> set (l_list w)"
  proof (cases w rule: loop_iter_cases)
    case fexit
    then show ?thesis by (simp add: loop_iter_fexit accepted_append)
  next
    case empty
    then show ?thesis by (simp add: loop_iter_empty accepted_append)
  next
    case (seg seg rest)
    let ?w2 = "snd (getBuffer (fst (pick E (nsel w))) (snd (pick E (nsel w)))
                 (w\<lparr>nsel := Suc (nsel w), l_list := rest, trace := trace w @ [ListRead]\<rparr>))"
    have w2: "trace ?w2 = trace w @ [ListRead]" "l_list ?w2 = rest"
      by (simp_all add: getBuffer_frame)
    have ne: "wr seg \<noteq> []"
      using assms(2) seg(2) by simp
    have p: "pub E (Topic l) (wr seg) ?w2 =
        ?w2\<lparr>npub := Suc (npub ?w2),
            trace := trace ?w2 @ [PublishAsync (Topic l) (wr seg) None], dcount := 0\<rparr>"
      using assms(1) by (simp add: pub_ok)
    have eq: "loop_iter wr E l w =
        putBuffer \<lparr>buf = wr seg, off = 0\<rparr> (pub E (Topic l) (wr seg) ?w2)"
      using seg ne by (simp add: loop_iter_seg)
    have "trace (loop_iter wr E l w) = trace w @ [ListRead, PublishAsync (Topic l) (wr seg) None]"
      by (simp add: eq p putBuffer_def w2)
    moreover have "l_list (loop_iter wr E l w) = rest"
      by (simp add: eq p putBuffer_def w2)
    ultimately show ?thesis using seg(2) by (auto simp: accepted_append)
  qed
  then show "accepted (trace (loop_iter wr E l w)) @ map wr (l_list (loop_iter wr E l w)) =
         accepted (trace w) @ map wr (l_list w)"
    and "set (l_list (loop_iter wr E l w)) \<subseteq> set (l_list w)"
    by simp_all
qed

lemma exec_all_ok:
  assumes "\<forall>n. sink E n = None"
  shows "\<forall>seg\<in>set (l_list w @ enqueued sched). wr seg \<noteq> [] \<Longrightarrow>
     accepted (trace (exec wr E l sched w)) @ map wr (l_list (exec wr E l sched w)) =
     accepted (trace w) @ map wr (l_list w @ enqueued sched)"
proof (induction sched arbitrary: w)
  case Nil
  show ?case by simp
next
  case (Cons a as)
  show ?case
  proof (cases a)
    case (Enqueue seg)
    with Cons.IH [of "list_Write seg w"] Cons.prems show ?thesis
      by (simp add: list_Write_def)
  next
    case CloseStep
    with Cons.IH [of "Close_step w"] Cons.prems show ?thesis
      by (auto simp: Close_step_def accepted_append split: close_pc.splits)
  next
    case Iter
    have ne: "\<forall>seg\<in>set (l_list w). wr seg \<noteq> []"
      using Cons.prems by simp
    have "\<forall>seg\<in>set (l_list (loop_iter wr E l w) @ enqueued as). wr seg \<noteq> []"
      using Cons.prems Iter loop_iter_all_ok(2) [OF assms ne, of l] by auto
    from Cons.IH [OF this] loop_iter_all_ok(1) [OF assms ne, of l] Iter show ?thesis
      by simp
  qed
qed

text \<open>
  C7: a segment that renders to zero bytes is discarded without a request to the
  producer, and no request of the loop ever carries an empty payload. The first part
  holds for every schedule from the start of the goroutine, whatever the producer
  answers; the second part is the discard path of one iteration.
\<close>

theorem zero_length_never_published:
  "[] \<notin> set (attempts (trace (exec (wr :: 'seg \<Rightarrow> bytes) E l sched (start bp sp)))) \<and>
   (closer w \<noteq> Sending \<and> l_list w = seg # rest \<and> wr seg = [] \<longrightarrow>
      attempts (trace (loop_iter wr E l w)) = attempts (trace w) \<and>
      l_list (loop_iter wr E l w) = rest)"
proof (intro conjI impI)
  let ?s = "start bp sp :: 'seg world"
  obtain evs where "trace (exec wr E l sched ?s) = trace ?s @ evs"
    "[] \<notin> set (attempts evs)"
    using exec_effect [of wr E l sched ?s] by blast
  then show "[] \<notin> set (attempts (trace (exec wr E l sched ?s)))"
    by (simp add: start_def)
next
  assume a: "closer w \<noteq> Sending \<and> l_list w = seg # rest \<and> wr seg = []"
  then have "loop_iter wr E l w =
     snd (getBuffer (fst (pick E (nsel w))) (snd (pick E (nsel w)))
            (w\<lparr>nsel := Suc (nsel w), l_list := rest, trace := trace w @ [ListRead]\<rparr>))"
    by (simp add: loop_iter_seg)
  then show "attempts (trace (loop_iter wr E l w)) = attempts (trace w)"
    and "l_list (loop_iter wr E l w) = rest"
    by (simp_all add: getBuffer_frame attempts_append)
qed

theorem zero_length_never_published_witness:
  "attempts (trace (loop_iter (\<lambda>s. s) env_up lg0 (list_Write [] (start [] [])))) = [] \<and>
   l_list (loop_iter (\<lambda>s. s) env_up lg0 (list_Write [] (start [] []))) = []"
proof -
  let ?w = "list_Write ([] :: bytes) (start [] [])"
  have h: "closer ?w \<noteq> Sending \<and> l_list ?w = [] # [] \<and> (\<lambda>s. s) ([] :: bytes) = []"
    by (simp add: list_Write_def start_def)
  have t: "attempts (trace ?w) = []"
    by (simp add: list_Write_def start_def)
  from zero_length_never_published [of "\<lambda>s. s" env_up lg0 "[]" "[]" "[]" ?w "[]" "[]"] h t
  show ?thesis by simp
qed

text \<open>
  C4: the segments are submitted in the order in which they were enqueued. For every
  schedule of writes, iterations and steps of \<open>Close\<close>, and every behaviour of the
  producer: the accepted payloads are a subsequence of the renderings of the enqueued
  segments, in their order; all requests, repeated ones included, keep that order
  (each segment has at most \<open>maxDcount + 2\<close> consecutive requests); and when the
  producer accepts everything, no segment renders to zero bytes and the queue has been
  drained, the accepted payloads are exactly the renderings of the enqueued segments
  in order. The schedule puts the writes of all callers in one sequence; nothing is
  said about how writes of different threads are ordered among each other.
\<close>

theorem fifo_submission_order:
  "subseq (accepted (trace (exec (wr :: 'seg \<Rightarrow> bytes) E l sched (start bp sp))))
          (map wr (enqueued sched)) \<and>
   subseq (attempts (trace (exec wr E l sched (start bp sp)))) (slots wr (enqueued sched)) \<and>
   ((\<forall>n. sink E n = None) \<and> (\<forall>seg\<in>set (enqueued sched). wr seg \<noteq> []) \<and>
    l_list (exec wr E l sched (start bp sp)) = [] \<longrightarrow>
      accepted (trace (exec wr E l sched (start bp sp))) = map wr (enqueued sched))"
proof (intro conjI impI)
  let ?s = "start bp sp :: 'seg world"
  let ?w = "exec wr E l sched ?s"
  obtain evs where e: "trace ?w = trace ?s @ evs"
    "subseq (accepted evs @ map wr (l_list ?w)) (map wr (l_list ?s @ enqueued sched))"
    "subseq (attempts evs @ slots wr (l_list ?w)) (slots wr (l_list ?s @ enqueued sched))"
    using exec_effect [of wr E l sched ?s] by blast
  have s: "trace ?s = []" "l_list ?s = []"
    by (simp_all add: start_def)
  have "subseq (accepted evs) (accepted evs @ map wr (l_list ?w))"
    by (rule subseq_rev_drop_many) (rule subseq_order.refl)
  then show "subseq (accepted (trace ?w)) (map wr (enqueued sched))"
    using e(1,2) s by (metis append_Nil subseq_order.trans)
  have "subseq (attempts evs) (attempts evs @ slots wr (l_list ?w))"
    by (rule subseq_rev_drop_many) (rule subseq_order.refl)
  then show "subseq (attempts (trace ?w)) (slots wr (enqueued sched))"
    using e(1,3) s by (metis append_Nil subseq_order.trans)
next
  let ?s = "start bp sp :: 'seg world"
  let ?w = "exec wr E l sched ?s"
  assume a: "(\<forall>n. sink E n = None) \<and> (\<forall>seg\<in>set (enqueued sched). wr seg \<noteq> []) \<and> l_list ?w = []"
  have s: "trace ?s = []" "l_list ?s = []"
    by (simp_all add: start_def)
  from a have "\<forall>n. sink E n = None" and "\<forall>seg\<in>set (l_list ?s @ enqueued sched). wr seg \<noteq> []"
    by (simp_all add: s)
  from exec_all_ok [OF this, of l] a s show "accepted (trace ?w) = map wr (enqueued sched)"
    by simp
qed

theorem fifo_submission_order_witness:
  "l_list (exec (\<lambda>s. s) env_up lg0 [Enqueue [1], Iter, Enqueue [2], Enqueue [3], Iter, Iter] (start [] [])) = [] \<and>
   accepted (trace (exec (\<lambda>s. s) env_up lg0 [Enqueue [1], Iter, Enqueue [2], Enqueue [3], Iter, Iter] (start [] [])))
     = [[1], [2], [3]]"
proof -
  let ?sched = "[Enqueue [1], Iter, Enqueue [2], Enqueue [3], Iter, Iter] :: bytes action list"
  have h1: "\<forall>n. sink env_up n = None"
    by (simp add: env_up_def)
  have h2: "\<forall>seg\<in>set (enqueued ?sched). (\<lambda>s. s) seg \<noteq> []"
    by simp
  have h3: "l_list (exec (\<lambda>s. s) env_up lg0 ?sched (start [] [])) = []"
    by code_simp
  from fifo_submission_order [of "\<lambda>s. s" env_up lg0 ?sched "[]" "[]"] h1 h2 h3
  show ?thesis by simp
qed

section \<open>The retry bound\<close>

text \<open>
  With a producer that is never connected and \<open>dcount = 0\<close>, the first segment gets
  twelve requests: the test \<open>dcount > maxDcount\<close> comes before the increment, so it
  first succeeds when \<open>dcount\<close> is 11. \<open>dcount\<close> keeps that value, and the next
  segment is given up after its first request.
\<close>

lemma never_connected_gives_up_after_twelve:
  "attempts (trace (exec (\<lambda>s. s) env_down lg0 [Enqueue [1], Enqueue [2], Iter, Iter] (start [] [])))
     = replicate 12 [1] @ [[2]] \<and>
   dcount (exec (\<lambda>s. s) env_down lg0 [Enqueue [1], Enqueue [2], Iter, Iter] (start [] [])) = 11"
  by code_simp

text \<open>A request that the producer accepts sets \<open>dcount\<close> back to 0.\<close>

lemma pub_accepted_resets_dcount:
  "last (trace (pub E t p w)) = PublishAsync t p None \<Longrightarrow> dcount (pub E t p w) = 0"
proof (induction E t p w rule: pub.induct)
  case (1 E t p w)
  show ?case
  proof (cases E w rule: pub_cases)
    case retry
    let ?w = "w\<lparr>npub := Suc (npub w), dcount := Suc (dcount w),
     trace := trace w @ [PublishAsync t p (Some ErrNotConnected), Sleep 100]\<rparr>"
    have eq: "pub E t p w = pub E t p ?w"
      using retry by (simp add: pub_retry)
    have "last (trace (pub E t p ?w)) = PublishAsync t p None \<Longrightarrow> dcount (pub E t p ?w) = 0"
      using "1.IH" [OF refl refl retry(1) refl] retry by simp
    with "1.prems" eq show ?thesis by simp
  next
    case ok
    then show ?thesis by (simp add: pub_ok)
  next
    case stopped
    with "1.prems" show ?thesis by (simp add: pub_stopped)
  next
    case (other m)
    with "1.prems" show ?thesis by (simp add: pub_other)
  next
    case give_up
    with "1.prems" show ?thesis by (simp add: pub_give_up)
  qed
qed

text \<open>
  C1: a segment whose request fails with \<open>ErrNotConnected\<close> is to be retried at most
  10 times, so that 11 failures in a row drop it without a twelfth request. Evaluated
  on a producer that is not connected for exactly the first 11 requests, with
  \<open>dcount = 0\<close>: the loop sends a twelfth request for the same payload, and that one
  is accepted.
\<close>

theorem twelfth_attempt_after_eleven_failures:
  "attempts (trace (exec (\<lambda>s. s) env_down11 lg0 [Enqueue [1], Iter] (start [] [])))
     = replicate 12 [1] \<and>
   accepted (trace (exec (\<lambda>s. s) env_down11 lg0 [Enqueue [1], Iter] (start [] []))) = [[1]]"
  by code_simp

section \<open>Shutdown\<close>

text \<open>
  C2: after the loop has received the signal of \<open>Close\<close> on \<open>l.fexit\<close> it is to send
  no further request, and \<open>l.done\<close> is to be closed only after the loop has stopped.
  Evaluated on a queue of two segments, with \<open>Close\<close> called before the first
  iteration: the loop receives the signal, then reads and publishes the first segment;
  \<open>Close\<close> closes \<open>l.done\<close> and stops the producer; the loop reads the second segment
  and sends a request for it.
\<close>

theorem publish_after_stop_signal:
  "trace (exec (\<lambda>s. s) env_stop_after1 lg0
            [Enqueue [1], Enqueue [2], CloseStep, Iter, Iter, CloseStep, CloseStep, Iter]
            (start [] []))
     = [RecvFexit, ListRead, PublishAsync ''logs'' [1] None, CloseDone, ProducerStop,
        ListRead, PublishAsync ''logs'' [2] (Some ErrStopped)]"
  by code_simp

text \<open>
  C3: after a request that fails with \<open>ErrStopped\<close> the loop is to stop and read no
  further segment. Evaluated on a stopped producer and a queue of two segments: after
  the failed request for the first segment the loop reads the second one and sends a
  request for it.
\<close>

theorem reads_continue_after_sink_stopped:
  "trace (exec (\<lambda>s. s) env_stopped lg0 [Enqueue [1], Enqueue [2], Iter, Iter] (start [] []))
     = [ListRead, PublishAsync ''logs'' [1] (Some ErrStopped),
        ListRead, PublishAsync ''logs'' [2] (Some ErrStopped)]"
  by code_simp

section \<open>The pools\<close>

text \<open>
  \<open>getBuffer\<close> always returns an empty buffer. \<open>getBytes\<close> returns a stored slice as
  it was stored: \<open>bytes[0:]\<close> keeps the length.
\<close>

lemma getBuffer_zero_length:
  "Len (fst (getBuffer k kb w)) = 0 \<and> Bytes (fst (getBuffer k kb w)) = []"
  by (simp add: getBuffer_empty Len_def Bytes_def)

lemma getBytes_hit:
  "k < length (bytesPool w) \<Longrightarrow> fst (getBytes k w) = bytesPool w ! k"
  by (simp add: getBytes_def pool_Get_def slice_from_def)

lemma getBytes_miss:
  "\<not> k < length (bytesPool w) \<Longrightarrow> fst (getBytes k w) = \<lparr>elems = [], capacity = 100\<rparr>"
  by (simp add: getBytes_def pool_Get_def slice_from_def make_bytes_def)

text \<open>
  C5: every value checked out of the buffer pool and of the byte-slice pool is to have
  length zero, whatever its state when it was released. Evaluated on a slice of
  length 3 that is released with \<open>putBytes\<close> and handed out again by the pool:
  \<open>getBytes\<close> returns it with its three elements.
\<close>

theorem getBytes_keeps_length:
  "fst (getBytes 0 (putBytes \<lparr>elems = [1, 2, 3], capacity = 100\<rparr> (start [] [] :: bytes world)))
     = \<lparr>elems = [1, 2, 3], capacity = 100\<rparr>"
  by (simp add: getBytes_def putBytes_def pool_Get_def pool_Put_def slice_from_def start_def)

text \<open>
  An iteration that publishes puts its buffer back into the pool; an iteration whose
  segment renders to zero bytes leaves the pool as \<open>getBuffer\<close> left it.
\<close>

lemma loop_iter_returns_buffer:
  assumes "closer w \<noteq> Sending" and "l_list w = seg # rest" and "wr seg \<noteq> []"
  shows "bufferPool (loop_iter wr E l w) =
     \<lparr>buf = wr seg, off = 0\<rparr> #
     bufferPool (snd (getBuffer (fst (pick E (nsel w))) (snd (pick E (nsel w)))
            (w\<lparr>nsel := Suc (nsel w), l_list := rest, trace := trace w @ [ListRead]\<rparr>)))"
  using assms by (simp add: loop_iter_seg Let_def putBuffer_def pool_Put_def pub_frame)

lemma loop_iter_keeps_buffer:
  assumes "closer w \<noteq> Sending" and "l_list w = seg # rest" and "wr seg = []"
  shows "bufferPool (loop_iter wr E l w) =
     bufferPool (snd (getBuffer (fst (pick E (nsel w))) (snd (pick E (nsel w)))
            (w\<lparr>nsel := Suc (nsel w), l_list := rest, trace := trace w @ [ListRead]\<rparr>)))"
  using assms by (simp add: loop_iter_seg)

text \<open>
  C6: the buffer taken for a segment is to be returned to the pool on every path,
  the discard of a zero-length rendering included. Evaluated with a pool that holds
  one buffer: after an iteration on a segment that renders to zero bytes the pool is
  empty, after an iteration on a segment that renders to one byte the buffer is back
  in the pool.
\<close>

theorem buffer_not_returned_on_zero_length:
  "bufferPool (exec (\<lambda>s. s) env_up lg0 [Enqueue [], Iter] (start [\<lparr>buf = [7], off = 0\<rparr>] [])) = [] \<and>
   bufferPool (exec (\<lambda>s. s) env_up lg0 [Enqueue [1], Iter] (start [\<lparr>buf = [7], off = 0\<rparr>] []))
     = [\<lparr>buf = [1], off = 0\<rparr>]"
  by code_simp

section \<open>Messages and entries\<close>

lemma doMsg_enqueues:
  "l_list (doMsg k l level message w) =
     l_list w @ [\<lparr>seg_name = DbName l, seg_level = level, seg_text = message\<rparr>]"
  by (simp add: doMsg_def putBytes_def list_Write_def LogMsgtoSegment_def getBytes_def
        pool_Get_def split: prod.splits)

text \<open>
  \<open>doEntry\<close> stamps the entry before it encodes it: an encoder that yields the
  \<open>time\<close> field of the entry it is given yields the clock reading of the call.
\<close>

lemma doEntry_stamps_time:
  "l_list (snd (snd (doEntry (\<lambda>name e. Inr (e ''time'')) now k l e w))) =
     l_list w @ [Some (GInt64 now)]"
  by (simp add: doEntry_def Let_def putBytes_def list_Write_def getBytes_def pool_Get_def
        split: prod.splits)


text \<open>
  Each formatted method enqueues what its plain method enqueues for the text that
  \<open>Sprintf\<close> makes of the format and of one operand, the slice of the arguments.
\<close>

lemma formatted_methods_pass_one_operand:
  "Infof sprintf k l format args w = Info k l (sprintf format [GSlice args]) w"
  "Debugf sprintf k l format args w = Debug k l (sprintf format [GSlice args]) w"
  "Warnf sprintf k l format args w = Warn k l (sprintf format [GSlice args]) w"
  "Errorf sprintf k l format args w = Error k l (sprintf format [GSlice args]) w"
  "Fatalf sprintf k l format args w = Fatal k l (sprintf format [GSlice args]) w"
  by (simp_all add: Infof_def Info_def Debugf_def Debug_def Warnf_def Warn_def Errorf_def
        Error_def Fatalf_def Fatal_def)

lemma Sprintf_examples:
  "Sprintf ''%s'' [GString ''a''] = ''a''"
  "Sprintf ''%s'' [GSlice [GString ''a'']] = ''[a]''"
  by (simp_all add: Sprintf_def extra_def)

text \<open>
  C9: a formatted method is to enqueue what the plain method enqueues for
  \<open>Sprintf\<close> of the format and the arguments as separate operands. Evaluated on
  \<open>Infof\<close> with the format \<open>%s\<close> and the one argument \<open>a\<close>: the text enqueued is
  \<open>[a]\<close>, while \<open>Info\<close> of \<open>Sprintf\<close> with the argument spread enqueues \<open>a\<close>.
\<close>

theorem Infof_formats_args_as_one_operand:
  "l_list (Infof Sprintf k l ''%s'' [GString ''a''] w) =
     l_list w @ [\<lparr>seg_name = DbName l, seg_level = INFO, seg_text = ''[a]''\<rparr>] \<and>
   l_list (Info k l (Sprintf ''%s'' [GString ''a'']) w) =
     l_list w @ [\<lparr>seg_name = DbName l, seg_level = INFO, seg_text = ''a''\<rparr>]"
  by (simp add: Infof_def Info_def doMsg_enqueues Sprintf_examples)

text \<open>
  C10: when \<open>EntrytoSegment\<close> fails on the stamped entry, \<open>doEntry\<close> returns that
  error and the queue is unchanged; when it succeeds, \<open>doEntry\<close> returns no error and
  the queue has the new segment at its end. So a segment is enqueued exactly when the
  encoding succeeded.
\<close>

theorem doEntry_enqueues_iff_encoded:
  "(EntrytoSegment (DbName l) (e(''time'' \<mapsto> GInt64 now)) = Inl err \<longrightarrow>
      fst (doEntry EntrytoSegment now k l e w) = Some err \<and>
      l_list (snd (snd (doEntry EntrytoSegment now k l e w))) = l_list w) \<and>
   (EntrytoSegment (DbName l) (e(''time'' \<mapsto> GInt64 now)) = Inr seg \<longrightarrow>
      fst (doEntry EntrytoSegment now k l e w) = None \<and>
      l_list (snd (snd (doEntry EntrytoSegment now k l e w))) = l_list w @ [seg])"
  by (simp add: doEntry_def Let_def putBytes_def list_Write_def getBytes_def pool_Get_def
        split: prod.splits)

theorem doEntry_enqueues_iff_encoded_witness:
  "fst (doEntry enc0 1414800000 0 lg0 Map.empty (start [] [])) = Some ''unsupported'' \<and>
   l_list (snd (snd (doEntry enc0 1414800000 0 lg0 Map.empty (start [] [])))) = [] \<and>
   fst (doEntry enc0 1414800000 0 lg0 [''msg'' \<mapsto> GString ''up''] (start [] [])) = None \<and>
   l_list (snd (snd (doEntry enc0 1414800000 0 lg0 [''msg'' \<mapsto> GString ''up''] (start [] [])))) =
     [(''app'', Some (GString ''up''), Some (GInt64 1414800000))]"
proof -
  let ?w = "start [] [] :: (string \<times> gval option \<times> gval option) world"
  have h1: "enc0 (DbName lg0) (Map.empty(''time'' \<mapsto> GInt64 1414800000)) = Inl ''unsupported''"
    by (simp add: enc0_def)
  have h2: "enc0 (DbName lg0) ([''msg'' \<mapsto> GString ''up''](''time'' \<mapsto> GInt64 1414800000))
      = Inr (''app'', Some (GString ''up''), Some (GInt64 1414800000))"
    by (simp add: enc0_def lg0_def)
  have s: "l_list ?w = []"
    by (simp add: start_def)
  from doEntry_enqueues_iff_encoded [where EntrytoSegment = enc0 and l = lg0
      and e = Map.empty and now = 1414800000 and err = "''unsupported''"
      and seg = "(''app'', Some (GString ''up''), Some (GInt64 1414800000))" and k = 0 and w = ?w]
    doEntry_enqueues_iff_encoded [where EntrytoSegment = enc0 and l = lg0
      and e = "[''msg'' \<mapsto> GString ''up'']" and now = 1414800000 and err = "''unsupported''"
      and seg = "(''app'', Some (GString ''up''), Some (GInt64 1414800000))" and k = 0 and w = ?w]
    h1 h2 s
  show ?thesis by simp
qed

end
